theory Spec2Isabelle
  imports Complex_Main "HOL-Library.AList"
begin

section \<open>Data model of \<open>scenedetect.scene_manager\<close>\<close>

text \<open>
  Modelled from the spec: \<open>FrameTimecode\<close> (module \<open>scenedetect.frame_timecode\<close>,
  imported by \<open>scene_manager.py\<close>). The spec calls it an immutable, comparable, orderable
  value for an exact frame position that supports addition and subtraction. All timecodes of
  one manager come from one video, hence share one frame rate, and a timecode is its frame
  number.
\<close>

type_synonym timecode = nat

text \<open>
  Modelled from the spec: \<open>EventType\<close> and \<open>DetectionEvent\<close> (module
  \<open>scenedetect.scene_detector\<close>): an event is \<open>{kind, time, context}\<close> with
  \<open>kind \<in> {IN, OUT, CUT}\<close>; the field \<open>context\<close> is opaque and is named
  \<open>ctx\<close> here.
\<close>

datatype EventType = IN | OUT | CUT

record 'c DetectionEvent =
  kind :: EventType
  time :: timecode
  ctx :: 'c

text \<open>
  A detector, as far as the manager looks into it: \<open>is_processing_required(frame_num)\<close>.
\<close>

record SceneDetector =
  is_processing_required :: "int \<Rightarrow> bool"

text \<open>The exceptions the module raises; the two raised by hand carry their message.\<close>

datatype error = AssertionError | KeyError | IndexError | TypeError | ValueError string
  | NotImplementedError string

text \<open>
  A scene is a pair of timecodes. The ledger \<open>self._events\<close> is a Python dict: an
  association list in insertion order, read with \<open>map_of\<close>, written with
  \<open>AList.update\<close> (in place for a known key, at the end for a new one).
\<close>

type_synonym scene = "timecode \<times> timecode"

type_synonym 'c ledger = "(timecode \<times> 'c DetectionEvent list) list"

record ('c, 's) SceneManager =
  events :: "'c ledger"
  detectors :: "SceneDetector list"
  stats_manager :: "'s option"
  start_pos :: "timecode option"
  last_pos :: "timecode option"
  downscale :: int
  auto_downscale :: bool
  only_cuts :: bool

text \<open>\<open>SceneManager.__init__\<close>\<close>

definition init :: "'s option \<Rightarrow> ('c, 's) SceneManager" where
  "init sm = \<lparr> events = [], detectors = [], stats_manager = sm, start_pos = None,
     last_pos = None, downscale = 1, auto_downscale = True, only_cuts = True \<rparr>"

text \<open>\<open>self._events[timecode]\<close>: a missing key raises \<open>KeyError\<close>.\<close>

definition getitem :: "'c ledger \<Rightarrow> timecode \<Rightarrow> error + 'c DetectionEvent list" where
  "getitem d t = (case map_of d t of None \<Rightarrow> Inl KeyError | Some es \<Rightarrow> Inr es)"

text \<open>The invariant of a dict: its keys are unique.\<close>

definition dict_ok :: "'c ledger \<Rightarrow> bool" where
  "dict_ok d = distinct (map fst d)"

subsection \<open>\<open>SceneManager.add_events\<close>\<close>

definition add_event :: "('c, 's) SceneManager \<Rightarrow> 'c DetectionEvent \<Rightarrow> ('c, 's) SceneManager"
  where
  "add_event st event =
     (let d1 = (if time event \<in> set (map fst (events st)) then events st
                else AList.update (time event) [] (events st));
          d2 = (case map_of d1 (time event) of
                  None \<Rightarrow> d1
                | Some es \<Rightarrow> AList.update (time event) (es @ [event]) d1)
      in st\<lparr> events := d2,
              only_cuts := (if kind event \<noteq> CUT then False else only_cuts st) \<rparr>)"

fun add_events :: "('c, 's) SceneManager \<Rightarrow> 'c DetectionEvent list \<Rightarrow> ('c, 's) SceneManager"
  where
  "add_events st [] = st"
| "add_events st (event # evs) = add_events (add_event st event) evs"

subsection \<open>\<open>SceneManager.get_scene_list\<close>\<close>

text \<open>
  The state of the two nested loops: \<open>in_scene\<close>, \<open>last_event_pos\<close>, \<open>scene_list\<close>,
  and, inside one timecode, \<open>added_new_scene\<close>.
\<close>

type_synonym assembly = "bool \<times> timecode \<times> scene list"

fun process_event :: "timecode \<Rightarrow> assembly \<times> bool \<Rightarrow> 'c DetectionEvent \<Rightarrow> assembly \<times> bool"
  where
  "process_event timecode ((in_scene, last_event_pos, scene_list), added_new_scene) event =
     (if kind event = IN then ((True, timecode, scene_list), added_new_scene)
      else if kind event = OUT then
        (if in_scene then
           (if \<not> added_new_scene
            then ((False, timecode, scene_list @ [(last_event_pos, timecode)]), True)
            else ((False, timecode, scene_list), added_new_scene))
         else ((in_scene, last_event_pos, scene_list), added_new_scene))
      else if kind event = CUT then
        (if in_scene then
           (if \<not> added_new_scene
            then ((in_scene, timecode, scene_list @ [(last_event_pos, timecode)]), True)
            else ((in_scene, timecode, scene_list), added_new_scene))
         else ((in_scene, last_event_pos, scene_list), added_new_scene))
      else ((in_scene, last_event_pos, scene_list), added_new_scene))"

fun events_loop :: "timecode \<Rightarrow> 'c DetectionEvent list \<Rightarrow> assembly \<times> bool \<Rightarrow> assembly \<times> bool"
  where
  "events_loop timecode [] s = s"
| "events_loop timecode (event # es) s = events_loop timecode es (process_event timecode s event)"

fun timecodes_loop :: "'c ledger \<Rightarrow> timecode list \<Rightarrow> assembly \<Rightarrow> error + assembly" where
  "timecodes_loop d [] a = Inr a"
| "timecodes_loop d (timecode # ts) a =
     (case getitem d timecode of
        Inl e \<Rightarrow> Inl e
      | Inr es \<Rightarrow> timecodes_loop d ts (fst (events_loop timecode es (a, False))))"

definition get_scene_list :: "('c, 's) SceneManager \<Rightarrow> bool \<Rightarrow> error + scene list" where
  "get_scene_list st always_include_end =
     (if events st = [] then Inr []
      else case start_pos st of
        None \<Rightarrow> Inl AssertionError
      | Some sp \<Rightarrow>
          (case timecodes_loop (events st) (sort (map fst (events st))) (only_cuts st, sp, []) of
             Inl e \<Rightarrow> Inl e
           | Inr (in_scene, last_event_pos, scene_list) \<Rightarrow>
               if in_scene \<and> always_include_end then
                 (case last_pos st of
                    None \<Rightarrow> Inl TypeError
                  | Some lp \<Rightarrow> Inr (scene_list @ [(last_event_pos, lp + 1)]))
               else Inr scene_list))"

subsection \<open>\<open>compute_downscale_factor\<close>\<close>




subsection \<open>\<open>SceneManager._is_processing_required\<close>\<close>

definition SceneManager_is_processing_required :: "('c, 's) SceneManager \<Rightarrow> int \<Rightarrow> bool" where
  "SceneManager_is_processing_required st frame_num =
     (if stats_manager st = None then True
      else list_all (\<lambda>detector. is_processing_required detector frame_num) (detectors st))"

subsection \<open>\<open>SceneManager.get_cut_list\<close>\<close>

text \<open>
  The comprehension over \<open>sorted(self._events)\<close> that keeps the timecodes with
  \<open>any(event.kind == EventType.CUT ...)\<close>.
\<close>

fun cut_times :: "'c ledger \<Rightarrow> timecode list \<Rightarrow> error + timecode list" where
  "cut_times d [] = Inr []"
| "cut_times d (event_time # ts) =
     (case getitem d event_time of
        Inl e \<Rightarrow> Inl e
      | Inr es \<Rightarrow>
          (case cut_times d ts of
             Inl e \<Rightarrow> Inl e
           | Inr rest \<Rightarrow>
               Inr (if list_ex (\<lambda>event. kind event = CUT) es then event_time # rest else rest)))"

text \<open>
  The loop \<open>for i in range(1, len(cuts))\<close>; \<open>filtered_cuts[-1]\<close> raises on an empty
  list. The difference of two timecodes is a timecode, compared with the integer
  \<open>minimum_spacing\<close>.
\<close>

fun filter_loop :: "int \<Rightarrow> timecode list \<Rightarrow> timecode list \<Rightarrow> error + timecode list" where
  "filter_loop minimum_spacing [] filtered_cuts = Inr filtered_cuts"
| "filter_loop minimum_spacing (c # cs) filtered_cuts =
     (if filtered_cuts = [] then Inl IndexError
      else filter_loop minimum_spacing cs
             (if int (c - last filtered_cuts) \<ge> minimum_spacing then filtered_cuts @ [c]
              else filtered_cuts))"

definition get_cut_list :: "('c, 's) SceneManager \<Rightarrow> int \<Rightarrow> error + timecode list" where
  "get_cut_list st minimum_spacing =
     (case cut_times (events st) (sort (map fst (events st))) of
        Inl e \<Rightarrow> Inl e
      | Inr cuts \<Rightarrow>
          if minimum_spacing > 1 \<and> length cuts > 1
          then filter_loop minimum_spacing (drop 1 cuts) (take 1 cuts)
          else Inr cuts)"

subsection \<open>\<open>SceneManager.transform_events_to_cuts\<close>\<close>

text \<open>
  A method that mutates the manager and may raise returns the exception, if any, and the
  manager as it is left.
\<close>

definition to_cut :: "'c DetectionEvent \<Rightarrow> 'c DetectionEvent" where
  "to_cut event = \<lparr> kind = CUT, time = time event, ctx = ctx event \<rparr>"

fun transform_loop :: "'c ledger \<Rightarrow> timecode list \<Rightarrow> error option \<times> 'c ledger" where
  "transform_loop d [] = (None, d)"
| "transform_loop d (timecode # ts) =
     (case getitem d timecode of
        Inl e \<Rightarrow> (Some e, d)
      | Inr es \<Rightarrow> transform_loop (AList.update timecode (map to_cut es) d) ts)"

definition transform_events_to_cuts ::
  "('c, 's) SceneManager \<Rightarrow> real option \<Rightarrow> error option \<times> ('c, 's) SceneManager" where
  "transform_events_to_cuts st fade_bias =
     (case fade_bias of
        None \<Rightarrow>
          (case transform_loop (events st) (map fst (events st)) of
             (r, d) \<Rightarrow> (r, st\<lparr> events := d \<rparr>))
      | Some b \<Rightarrow> (Some (NotImplementedError ''TODO(v1.0): Handle fade_bias.''), st))"

subsection \<open>\<open>SceneManager.detect_scenes\<close>: the argument checks\<close>

text \<open>
  \<open>detect_scenes\<close> opens with four checks and only then touches the video. What follows
  the checks (the frame loop over the \<open>VideoStream\<close> and the detectors, which are not part
  of this module) is the parameter \<open>frame_loop\<close>; \<open>'v\<close> is the state of the video. The
  result is the returned frame count or the exception, with the manager and the video as
  they are left.
\<close>

definition detect_scenes ::
  "(('c, 's) SceneManager \<Rightarrow> 'v \<Rightarrow> int option \<Rightarrow> int option \<Rightarrow> int
      \<Rightarrow> (error + int) \<times> ('c, 's) SceneManager \<times> 'v)
   \<Rightarrow> ('c, 's) SceneManager \<Rightarrow> 'v \<Rightarrow> int option \<Rightarrow> int option \<Rightarrow> int
   \<Rightarrow> (error + int) \<times> ('c, 's) SceneManager \<times> 'v" where
  "detect_scenes frame_loop st video duration end_time frame_skip =
     (if frame_skip > 0 \<and> stats_manager st \<noteq> None
      then (Inl (ValueError ''frame_skip must be 0 when using a StatsManager.''), st, video)
      else if duration \<noteq> None \<and> end_time \<noteq> None
      then (Inl (ValueError ''duration and end_time cannot be set at the same time!''), st, video)
      else if duration \<noteq> None \<and> the duration < 0
      then (Inl (ValueError ''duration must be greater than or equal to 0!''), st, video)
      else if end_time \<noteq> None \<and> the end_time < 0
      then (Inl (ValueError ''end_time must be greater than or equal to 0!''), st, video)
      else frame_loop st video duration end_time frame_skip)"

section \<open>Properties as the specification words them\<close>

text \<open>
  The cut filter in the specification's words: keep the first cut; keep each later cut
  iff it lies at least \<open>minimum_spacing\<close> frames after the cut kept last.
\<close>

fun spec_greedy :: "int \<Rightarrow> timecode \<Rightarrow> timecode list \<Rightarrow> timecode list" where
  "spec_greedy minimum_spacing kept [] = []"
| "spec_greedy minimum_spacing kept (c # cs) =
     (if int c - int kept \<ge> minimum_spacing then c # spec_greedy minimum_spacing c cs
      else spec_greedy minimum_spacing kept cs)"

definition spec_cut_filter :: "int \<Rightarrow> timecode list \<Rightarrow> timecode list" where
  "spec_cut_filter minimum_spacing cuts =
     (case cuts of
        [] \<Rightarrow> []
      | c # cs \<Rightarrow> if minimum_spacing > 1 \<and> cs \<noteq> [] then c # spec_greedy minimum_spacing c cs
                  else cuts)"

text \<open>The timecodes of a ledger that hold at least one CUT event.\<close>

definition has_cut :: "'c ledger \<Rightarrow> timecode \<Rightarrow> bool" where
  "has_cut d t = (case map_of d t of None \<Rightarrow> False
                  | Some es \<Rightarrow> list_ex (\<lambda>event. kind event = CUT) es)"

text \<open>
  The events of one timecode reopen a scene on that frame: an IN event is followed, in
  arrival order, by an OUT or a CUT event.
\<close>

fun reopens :: "'c DetectionEvent list \<Rightarrow> bool" where
  "reopens [] = False"
| "reopens (event # es) =
     ((kind event = IN \<and> list_ex (\<lambda>e. kind e \<noteq> IN) es) \<or> reopens es)"

section \<open>Example states\<close>

text \<open>
  Managers as a run leaves them: events reported through \<open>add_events\<close>, then the start
  and the last processed position recorded. The context of an event is a number here.
\<close>

definition after_run ::
  "'c DetectionEvent list \<Rightarrow> timecode \<Rightarrow> timecode \<Rightarrow> ('c, unit) SceneManager" where
  "after_run evs sp lp = (add_events (init None) evs) \<lparr> start_pos := Some sp, last_pos := Some lp \<rparr>"

text \<open>Three cuts over the frames 0 to 60, reported out of frame order.\<close>

definition example_cuts :: "(nat, unit) SceneManager" where
  "example_cuts =
     after_run [\<lparr> kind = CUT, time = 30, ctx = 0 \<rparr>, \<lparr> kind = CUT, time = 10, ctx = 1 \<rparr>,
                \<lparr> kind = CUT, time = 50, ctx = 2 \<rparr>] 0 60"

text \<open>An IN and an OUT event on the same frame 5, over the frames 0 to 25.\<close>

definition example_same_frame :: "(nat, unit) SceneManager" where
  "example_same_frame =
     after_run [\<lparr> kind = IN, time = 5, ctx = 0 \<rparr>, \<lparr> kind = OUT, time = 5, ctx = 1 \<rparr>] 0 25"

text \<open>A cut on the very first frame of the run.\<close>

definition example_cut_at_start :: "(nat, unit) SceneManager" where
  "example_cut_at_start = after_run [\<lparr> kind = CUT, time = 0, ctx = 0 \<rparr>] 0 60"

text \<open>A cut reported beyond the last processed position.\<close>

definition example_cut_past_end :: "(nat, unit) SceneManager" where
  "example_cut_past_end = after_run [\<lparr> kind = CUT, time = 100, ctx = 0 \<rparr>] 0 60"

text \<open>A fade in on the first frame, two cuts on frame 10, a fade out at 20.\<close>

definition example_fade_from_start :: "(nat, unit) SceneManager" where
  "example_fade_from_start =
     after_run [\<lparr> kind = IN, time = 0, ctx = 0 \<rparr>, \<lparr> kind = CUT, time = 10, ctx = 1 \<rparr>,
                \<lparr> kind = OUT, time = 20, ctx = 2 \<rparr>, \<lparr> kind = CUT, time = 10, ctx = 3 \<rparr>] 0 25"



text \<open>
  A run that reported a fade in at 10, a fade out at 30 and a cut at 50, after which
  \<open>transform_events_to_cuts(None)\<close> made every event a cut.
\<close>

definition example_stale_flag :: "(nat, unit) SceneManager" where
  "example_stale_flag =
     snd (transform_events_to_cuts
            (after_run [\<lparr> kind = IN, time = 10, ctx = 0 \<rparr>, \<lparr> kind = OUT, time = 30, ctx = 1 \<rparr>,
                        \<lparr> kind = CUT, time = 50, ctx = 2 \<rparr>] 0 60) None)"


text \<open>Cuts at the frames 10, 12, 13 and 40, and a fade in at 11.\<close>

definition example_cluster :: "(nat, unit) SceneManager" where
  "example_cluster =
     after_run [\<lparr> kind = CUT, time = 12, ctx = 0 \<rparr>, \<lparr> kind = CUT, time = 10, ctx = 1 \<rparr>,
                \<lparr> kind = IN, time = 11, ctx = 2 \<rparr>, \<lparr> kind = CUT, time = 40, ctx = 3 \<rparr>,
                \<lparr> kind = CUT, time = 13, ctx = 4 \<rparr>] 0 60"

text \<open>The docstring's example: an OUT event on frame 2 and an IN event on frame 8.\<close>

definition example_fades :: "(nat, unit) SceneManager" where
  "example_fades =
     after_run [\<lparr> kind = OUT, time = 2, ctx = 0 \<rparr>, \<lparr> kind = IN, time = 8, ctx = 1 \<rparr>] 1 10"

text \<open>
  A manager with a metric cache and two detectors: the first misses its metrics for every
  frame, the second finds them.
\<close>

definition example_two_detectors :: "(nat, unit) SceneManager" where
  "example_two_detectors =
     (init (Some ())) \<lparr> detectors := [\<lparr> is_processing_required = (\<lambda>frame_num. True) \<rparr>,
                                        \<lparr> is_processing_required = (\<lambda>frame_num. False) \<rparr>] \<rparr>"

text \<open>Two arrival orders of the same five events; the two cuts of frame 10 keep their order.\<close>

definition example_arrival_a :: "nat DetectionEvent list" where
  "example_arrival_a =
     [\<lparr> kind = IN, time = 5, ctx = 0 \<rparr>, \<lparr> kind = CUT, time = 10, ctx = 1 \<rparr>,
      \<lparr> kind = CUT, time = 10, ctx = 2 \<rparr>, \<lparr> kind = OUT, time = 20, ctx = 3 \<rparr>,
      \<lparr> kind = IN, time = 22, ctx = 4 \<rparr>]"

definition example_arrival_b :: "nat DetectionEvent list" where
  "example_arrival_b =
     [\<lparr> kind = IN, time = 22, ctx = 4 \<rparr>, \<lparr> kind = CUT, time = 10, ctx = 1 \<rparr>,
      \<lparr> kind = OUT, time = 20, ctx = 3 \<rparr>, \<lparr> kind = IN, time = 5, ctx = 0 \<rparr>,
      \<lparr> kind = CUT, time = 10, ctx = 2 \<rparr>]"

text \<open>A frame loop that reads nothing and reports no frame processed.\<close>

definition idle_frame_loop ::
  "(nat, unit) SceneManager \<Rightarrow> nat \<Rightarrow> int option \<Rightarrow> int option \<Rightarrow> int
     \<Rightarrow> (error + int) \<times> (nat, unit) SceneManager \<times> nat" where
  "idle_frame_loop st video duration end_time frame_skip = (Inr 0, st, video)"

section \<open>Facts about dicts and sorted keys\<close>

lemma sort_distinct_set: "distinct xs \<Longrightarrow> sort xs = sorted_list_of_set (set xs)"
  by (simp add: sorted_list_of_set_sort_remdups distinct_remdups_id)

lemma getitem_key:
  assumes "t \<in> set (map fst d)"
  shows "\<exists>es. map_of d t = Some es \<and> getitem d t = Inr es"
proof -
  from assms have "t \<in> dom (map_of d)"
    by (simp add: dom_map_of_conv_image_fst)
  then obtain es where "map_of d t = Some es"
    by blast
  then show ?thesis
    by (simp add: getitem_def)
qed

section \<open>Facts about \<open>add_events\<close>\<close>

lemma add_events_start_pos: "start_pos (add_events st evs) = start_pos st"
  by (induction evs arbitrary: st) (auto simp: add_event_def Let_def)

lemma add_events_last_pos: "last_pos (add_events st evs) = last_pos st"
  by (induction evs arbitrary: st) (auto simp: add_event_def Let_def)

lemma add_event_keys:
  "set (map fst (events (add_event st e))) = insert (time e) (set (map fst (events st)))"
  by (auto simp: add_event_def Let_def AList.dom_update AList.update_conv' split: option.splits)

lemma add_events_keys:
  "set (map fst (events (add_events st evs))) = set (map fst (events st)) \<union> time ` set evs"
  by (induction evs arbitrary: st) (auto simp: add_event_keys simp del: set_map)

lemma add_event_map_of:
  "map_of (events (add_event st e)) =
     (map_of (events st))(time e \<mapsto> (case map_of (events st) (time e) of None \<Rightarrow> [] | Some es \<Rightarrow> es) @ [e])"
proof (cases "time e \<in> set (map fst (events st))")
  case True
  from getitem_key [OF this] obtain es where "map_of (events st) (time e) = Some es" by blast
  with True show ?thesis
    by (simp add: add_event_def AList.update_conv')
next
  case False
  then have "map_of (events st) (time e) = None"
    by (simp add: map_of_eq_None_iff)
  with False show ?thesis
    by (simp add: add_event_def AList.update_conv')
qed

lemma filter_time_empty: "t \<notin> time ` set xs \<Longrightarrow> filter (\<lambda>e. time e = t) xs = []"
  by (auto simp: filter_empty_conv)

lemma add_events_map_of:
  "map_of (events (add_events st xs)) t =
     (if t \<in> time ` set xs
      then Some ((case map_of (events st) t of None \<Rightarrow> [] | Some es \<Rightarrow> es) @ filter (\<lambda>e. time e = t) xs)
      else map_of (events st) t)"
proof (induction xs arbitrary: st)
  case Nil
  then show ?case by simp
next
  case (Cons e xs)
  show ?case
    by (simp add: Cons.IH add_event_map_of) (auto simp: filter_time_empty)
qed

lemma add_event_dict_ok: "dict_ok (events st) \<Longrightarrow> dict_ok (events (add_event st e))"
  by (auto simp: add_event_def Let_def dict_ok_def AList.distinct_update split: option.splits)

lemma add_events_dict_ok: "dict_ok (events st) \<Longrightarrow> dict_ok (events (add_events st xs))"
  by (induction xs arbitrary: st) (auto simp: add_event_dict_ok)

lemma add_events_only_cuts:
  "only_cuts (add_events st xs) = (only_cuts st \<and> (\<forall>e \<in> set xs. kind e = CUT))"
  by (induction xs arbitrary: st) (auto simp: add_event_def Let_def)

section \<open>Scene assembly: a run of cuts only\<close>

lemma events_loop_cuts_added:
  "\<forall>e \<in> set es. kind e = CUT \<Longrightarrow>
   events_loop t es ((True, lep, sl), True) = ((True, (if es = [] then lep else t), sl), True)"
  by (induction es arbitrary: lep) auto

lemma events_loop_cuts:
  "es \<noteq> [] \<Longrightarrow> \<forall>e \<in> set es. kind e = CUT \<Longrightarrow>
   events_loop t es ((True, lep, sl), False) = ((True, t, sl @ [(lep, t)]), True)"
  by (cases es) (auto simp: events_loop_cuts_added)

text \<open>
  With the cuts-only flag set, a ledger that holds only CUT events, at the frames 10, 30 and
  50 (any number of them at each frame, added in any order), start position 0 and last
  processed position 60, is assembled into \<open>[(0,10), (10,30), (30,50), (50,61)]\<close>.
\<close>

lemma get_scene_list_cuts_flag_set:
  assumes ok: "dict_ok (events st)"
    and keys: "set (map fst (events st)) = {10, 30, 50}"
    and cuts: "\<forall>t es. map_of (events st) t = Some es \<longrightarrow>
                 es \<noteq> [] \<and> (\<forall>e \<in> set es. kind e = CUT)"
    and flag: "only_cuts st"
    and sp: "start_pos st = Some 0"
    and lp: "last_pos st = Some 60"
  shows "get_scene_list st True = Inr [(0, 10), (10, 30), (30, 50), (50, 61)]"
proof -
  have srt: "sort (map fst (events st)) = [10, 30, 50]"
    using ok keys by (simp add: dict_ok_def sort_distinct_set)
  have ne: "events st \<noteq> []"
    using keys by auto
  have look: "\<exists>es. getitem (events st) t = Inr es \<and> es \<noteq> [] \<and> (\<forall>e \<in> set es. kind e = CUT)"
    if "t \<in> {10, 30, 50}" for t
  proof -
    from that keys have "t \<in> set (map fst (events st))"
      by simp
    from getitem_key [OF this] cuts show ?thesis
      by blast
  qed
  obtain e1 where e1: "getitem (events st) 10 = Inr e1" "e1 \<noteq> []" "\<forall>e \<in> set e1. kind e = CUT"
    using look [of 10] by auto
  obtain e2 where e2: "getitem (events st) 30 = Inr e2" "e2 \<noteq> []" "\<forall>e \<in> set e2. kind e = CUT"
    using look [of 30] by auto
  obtain e3 where e3: "getitem (events st) 50 = Inr e3" "e3 \<noteq> []" "\<forall>e \<in> set e3. kind e = CUT"
    using look [of 50] by auto
  have "timecodes_loop (events st) [10, 30, 50] (True, 0, [])
          = Inr (True, 50, [(0, 10), (10, 30), (30, 50)])"
    using e1 e2 e3 by (simp add: events_loop_cuts)
  then show ?thesis
    using srt ne flag sp lp by (simp add: get_scene_list_def)
qed

lemma get_scene_list_cuts_flag_set_example:
  "dict_ok (events example_cuts) \<and> only_cuts example_cuts \<and>
   get_scene_list example_cuts True = Inr [(0, 10), (10, 30), (30, 50), (50, 61)]"
proof -
  have ev: "events example_cuts =
      [(30, [\<lparr> kind = CUT, time = 30, ctx = 0 \<rparr>]), (10, [\<lparr> kind = CUT, time = 10, ctx = 1 \<rparr>]),
       (50, [\<lparr> kind = CUT, time = 50, ctx = 2 \<rparr>])]"
    by (simp add: example_cuts_def after_run_def init_def add_event_def)
  have h1: "dict_ok (events example_cuts)"
    by (simp add: ev dict_ok_def)
  have h2: "set (map fst (events example_cuts)) = {10, 30, 50}"
    by (auto simp: ev)
  have h3: "\<forall>t es. map_of (events example_cuts) t = Some es \<longrightarrow>
              es \<noteq> [] \<and> (\<forall>e \<in> set es. kind e = CUT)"
    by (auto simp: ev split: if_splits)
  have h4: "only_cuts example_cuts"
    by (simp add: example_cuts_def after_run_def init_def add_event_def)
  have h5: "start_pos example_cuts = Some 0" and h6: "last_pos example_cuts = Some 60"
    by (simp_all add: example_cuts_def after_run_def)
  show ?thesis
    using h1 h4 get_scene_list_cuts_flag_set [OF h1 h2 h3 h4 h5 h6] by simp
qed

text \<open>
  C1. A ledger that holds only CUT events at the frames 10, 30 and 50, start position 0, last
  processed position 60, but on which the cuts-only flag is unset:
  \<open>transform_events_to_cuts(None)\<close> turned an IN, an OUT and a CUT event into three cuts
  and left the flag as \<open>add_events\<close> had set it. There \<open>get_scene_list\<close> with
  \<open>always_include_end = True\<close> returns the empty list, not
  \<open>[(0,10), (10,30), (30,50), (50,61)]\<close>.
\<close>

theorem get_scene_list_cuts_stale_flag:
  "events example_stale_flag =
     [(10, [\<lparr> kind = CUT, time = 10, ctx = 0 \<rparr>]), (30, [\<lparr> kind = CUT, time = 30, ctx = 1 \<rparr>]),
      (50, [\<lparr> kind = CUT, time = 50, ctx = 2 \<rparr>])] \<and>
   start_pos example_stale_flag = Some 0 \<and> last_pos example_stale_flag = Some 60 \<and>
   only_cuts example_stale_flag = False \<and>
   get_scene_list example_stale_flag True = Inr []"
proof -
  have ev: "events example_stale_flag =
     [(10, [\<lparr> kind = CUT, time = 10, ctx = 0 \<rparr>]), (30, [\<lparr> kind = CUT, time = 30, ctx = 1 \<rparr>]),
      (50, [\<lparr> kind = CUT, time = 50, ctx = 2 \<rparr>])]"
    by (simp add: example_stale_flag_def transform_events_to_cuts_def after_run_def init_def
        add_event_def getitem_def to_cut_def)
  have pos: "start_pos example_stale_flag = Some 0" "last_pos example_stale_flag = Some 60"
    "only_cuts example_stale_flag = False"
    by (simp_all add: example_stale_flag_def transform_events_to_cuts_def after_run_def init_def
        add_event_def getitem_def to_cut_def)
  have "get_scene_list example_stale_flag True = Inr []"
    by (simp add: get_scene_list_def ev pos getitem_def)
  with ev pos show ?thesis by simp
qed

section \<open>Scene assembly: what one timecode can append\<close>

lemma kind_cases: "kind e = IN \<or> kind e = OUT \<or> kind e = CUT"
  by (cases "kind e") auto

lemma process_event_shape:
  assumes "process_event t ((b, lep, sl), a) e = ((b1, lep1, sl1), a1)"
  shows "(a \<longrightarrow> a1 \<and> sl1 = sl \<and> (lep1 = lep \<or> lep1 = t)) \<and>
         (\<not> a \<longrightarrow> (\<not> a1 \<and> sl1 = sl \<and> (lep1 = lep \<or> lep1 = t)) \<or>
                   (a1 \<and> lep1 = t \<and> sl1 = sl @ [(lep, t)] \<and> kind e \<noteq> IN))"
  using assms kind_cases [of e] by (auto split: if_splits)

lemma events_loop_added:
  "events_loop t es ((b, lep, sl), True) = ((b', lep', sl'), a') \<Longrightarrow>
   a' \<and> sl' = sl \<and> (lep' = lep \<or> lep' = t)"
proof (induction es arbitrary: b lep)
  case Nil
  then show ?case by simp
next
  case (Cons e es)
  obtain b1 lep1 sl1 a1 where pe: "process_event t ((b, lep, sl), True) e = ((b1, lep1, sl1), a1)"
    by (metis prod.exhaust)
  from process_event_shape [OF pe] have s: "a1" "sl1 = sl" "lep1 = lep \<or> lep1 = t" by auto
  from Cons.prems pe s have "events_loop t es ((b1, lep1, sl), True) = ((b', lep', sl'), a')"
    by simp
  from Cons.IH [OF this] s show ?case by auto
qed

lemma events_loop_shape:
  "events_loop t es ((b, lep, sl), False) = ((b', lep', sl'), a') \<Longrightarrow>
   (\<not> a' \<and> sl' = sl \<and> (lep' = lep \<or> lep' = t)) \<or>
   (a' \<and> lep' = t \<and> (sl' = sl @ [(lep, t)] \<or> sl' = sl @ [(t, t)]))"
proof (induction es arbitrary: b lep)
  case Nil
  then show ?case by simp
next
  case (Cons e es)
  obtain b1 lep1 sl1 a1 where pe: "process_event t ((b, lep, sl), False) e = ((b1, lep1, sl1), a1)"
    by (metis prod.exhaust)
  from Cons.prems pe have rest: "events_loop t es ((b1, lep1, sl1), a1) = ((b', lep', sl'), a')"
    by simp
  show ?case
  proof (cases a1)
    case True
    with process_event_shape [OF pe] have s: "lep1 = t" "sl1 = sl @ [(lep, t)]" by auto
    from rest True events_loop_added [of t es b1 lep1 sl1 b' lep' sl' a'] s show ?thesis by auto
  next
    case False
    with process_event_shape [OF pe] have s: "sl1 = sl" "lep1 = lep \<or> lep1 = t" by auto
    from rest False s have "events_loop t es ((b1, lep1, sl), False) = ((b', lep', sl'), a')"
      by simp
    from Cons.IH [OF this] s show ?thesis by auto
  qed
qed

lemma events_loop_only_in:
  "\<not> list_ex (\<lambda>e. kind e \<noteq> IN) es \<Longrightarrow>
   events_loop t es ((b, lep, sl), a) = ((b', lep', sl'), a') \<Longrightarrow>
   a' = a \<and> sl' = sl \<and> (lep' = lep \<or> lep' = t)"
proof (induction es arbitrary: b lep)
  case Nil
  then show ?case by simp
next
  case (Cons e es)
  from Cons.prems(1) have k: "kind e = IN" and r: "\<not> list_ex (\<lambda>e. kind e \<noteq> IN) es" by auto
  from Cons.prems(2) k have "events_loop t es ((True, t, sl), a) = ((b', lep', sl'), a')"
    by simp
  from Cons.IH [OF r this] show ?case by auto
qed

lemma process_event_in_scene:
  assumes "process_event t ((b, lep, sl), a) e = ((b1, lep1, sl1), a1)"
  shows "(sl1 \<noteq> sl \<longrightarrow> b) \<and> (b1 \<and> \<not> b \<longrightarrow> lep1 = t) \<and>
         (kind e \<noteq> IN \<and> \<not> a1 \<longrightarrow> b1 = b \<and> lep1 = lep)"
  using assms kind_cases [of e] by (auto split: if_splits)

lemma events_loop_lep:
  "events_loop t es ((b, lep, sl), a) = ((b', lep', sl'), a') \<Longrightarrow> lep' = lep \<or> lep' = t"
  using events_loop_added [of t es b lep sl b' lep' sl' a']
    events_loop_shape [of t es b lep sl b' lep' sl' a']
  by (cases a) auto

lemma events_loop_in_scene:
  "events_loop t es ((b, lep, sl), a) = ((b', lep', sl'), a') \<Longrightarrow> b' \<Longrightarrow> \<not> b \<Longrightarrow> lep' = t"
proof (induction es arbitrary: b lep sl a)
  case Nil
  then show ?case by simp
next
  case (Cons e es)
  obtain b1 lep1 sl1 a1 where pe: "process_event t ((b, lep, sl), a) e = ((b1, lep1, sl1), a1)"
    by (metis prod.exhaust)
  from Cons.prems(1) pe have rest: "events_loop t es ((b1, lep1, sl1), a1) = ((b', lep', sl'), a')"
    by simp
  show ?case
  proof (cases b1)
    case True
    with process_event_in_scene [OF pe] Cons.prems(3) have "lep1 = t" by simp
    with events_loop_lep [OF rest] show ?thesis by auto
  next
    case False
    from Cons.IH [OF rest Cons.prems(2) False] show ?thesis .
  qed
qed

lemma events_loop_append_strict:
  "\<not> reopens es \<Longrightarrow>
   events_loop t es ((b, lep, sl), False) = ((b', lep', sl'), a') \<Longrightarrow>
   (\<not> a' \<and> sl' = sl) \<or> (a' \<and> b \<and> lep' = t \<and> sl' = sl @ [(lep, t)])"
proof (induction es arbitrary: b lep)
  case Nil
  then show ?case by simp
next
  case (Cons e es)
  obtain b1 lep1 sl1 a1 where pe: "process_event t ((b, lep, sl), False) e = ((b1, lep1, sl1), a1)"
    by (metis prod.exhaust)
  from Cons.prems pe have rest: "events_loop t es ((b1, lep1, sl1), a1) = ((b', lep', sl'), a')"
    by simp
  from Cons.prems(1) have nr: "\<not> reopens es" by simp
  show ?case
  proof (cases a1)
    case True
    with process_event_shape [OF pe] process_event_in_scene [OF pe]
    have s: "lep1 = t" "sl1 = sl @ [(lep, t)]" "b" by auto
    from rest True events_loop_added [of t es b1 lep1 sl1 b' lep' sl' a'] s show ?thesis by auto
  next
    case False
    with process_event_shape [OF pe] have s: "sl1 = sl" by auto
    show ?thesis
    proof (cases "kind e = IN")
      case True
      with Cons.prems(1) have "\<not> list_ex (\<lambda>e. kind e \<noteq> IN) es" by simp
      from events_loop_only_in [OF this rest] False s show ?thesis by auto
    next
      case notin: False
      with process_event_in_scene [OF pe] False have "b1 = b" "lep1 = lep" by auto
      with rest False s have "events_loop t es ((b, lep, sl), False) = ((b', lep', sl'), a')"
        by simp
      from Cons.IH [OF nr this] show ?thesis .
    qed
  qed
qed

section \<open>Scene assembly: order of the scenes\<close>

lemma successively_nth:
  "successively P xs \<Longrightarrow> Suc i < length xs \<Longrightarrow> P (xs ! i) (xs ! Suc i)"
proof (induction P xs arbitrary: i rule: successively.induct)
  case (3 P x y xs)
  then show ?case by (cases i) auto
qed auto

lemma timecodes_loop_chain:
  assumes "sorted ts" and "set ts \<subseteq> set (map fst d)"
    and "timecodes_loop d ts (b, lep, sl) = Inr (b', lep', sl')"
    and "successively (\<lambda>x y. snd x \<le> fst y) sl"
    and "sl \<noteq> [] \<longrightarrow> snd (last sl) \<le> lep \<and> (\<forall>t \<in> set ts. lep \<le> t)"
  shows "successively (\<lambda>x y. snd x \<le> fst y) sl' \<and> (sl' \<noteq> [] \<longrightarrow> snd (last sl') \<le> lep')"
  using assms
proof (induction ts arbitrary: b lep sl)
  case Nil
  then show ?case by simp
next
  case (Cons t ts)
  from Cons.prems(2) have "t \<in> set (map fst d)" by simp
  from getitem_key [OF this] obtain es where es: "getitem d t = Inr es" by blast
  obtain b1 lep1 sl1 a1 where el: "events_loop t es ((b, lep, sl), False) = ((b1, lep1, sl1), a1)"
    by (metis prod.exhaust)
  from Cons.prems(3) es el have rest: "timecodes_loop d ts (b1, lep1, sl1) = Inr (b', lep', sl')"
    by simp
  from Cons.prems(1) have srt: "sorted ts" and le: "\<forall>t' \<in> set ts. t \<le> t'" by auto
  from Cons.prems(2) have sub: "set ts \<subseteq> set (map fst d)" by simp
  from Cons.prems(5) have inv: "sl \<noteq> [] \<longrightarrow> snd (last sl) \<le> lep \<and> lep \<le> t \<and> (\<forall>t' \<in> set ts. lep \<le> t')"
    by simp
  have s1: "successively (\<lambda>x y. snd x \<le> fst y) sl1"
    using events_loop_shape [OF el] Cons.prems(4) inv
    by (auto simp: successively_append_iff)
  have i1: "sl1 \<noteq> [] \<longrightarrow> snd (last sl1) \<le> lep1 \<and> (\<forall>t' \<in> set ts. lep1 \<le> t')"
    using events_loop_shape [OF el] inv le by auto
  from Cons.IH [OF srt sub rest s1 i1] show ?case .
qed

lemma timecodes_loop_strict:
  assumes "sorted ts" and "distinct ts" and "set ts \<subseteq> set (map fst d)"
    and "timecodes_loop d ts (b, lep, sl) = Inr (b', lep', sl')"
    and "\<forall>t \<in> set ts. \<forall>es. map_of d t = Some es \<longrightarrow> \<not> reopens es"
    and "b \<longrightarrow> (\<forall>t \<in> set ts. lep < t)"
    and "\<forall>(s, e) \<in> set sl. s < e"
  shows "(\<forall>(s, e) \<in> set sl'. s < e) \<and> (b' \<longrightarrow> lep' \<in> set ts \<or> (b \<and> lep' = lep))"
  using assms
proof (induction ts arbitrary: b lep sl)
  case Nil
  then show ?case by simp
next
  case (Cons t ts)
  from Cons.prems(3) have "t \<in> set (map fst d)" by simp
  from getitem_key [OF this] obtain es where
    es: "map_of d t = Some es" "getitem d t = Inr es" by blast
  with Cons.prems(5) have nr: "\<not> reopens es" by simp
  obtain b1 lep1 sl1 a1 where el: "events_loop t es ((b, lep, sl), False) = ((b1, lep1, sl1), a1)"
    by (metis prod.exhaust)
  from Cons.prems(4) es el have rest: "timecodes_loop d ts (b1, lep1, sl1) = Inr (b', lep', sl')"
    by simp
  from Cons.prems(1,2) have srt: "sorted ts" "distinct ts" and lt: "\<forall>t' \<in> set ts. t < t'"
    by (auto simp: less_le)
  from Cons.prems(3) have sub: "set ts \<subseteq> set (map fst d)" by simp
  from Cons.prems(5) have nrs: "\<forall>t \<in> set ts. \<forall>es. map_of d t = Some es \<longrightarrow> \<not> reopens es"
    by simp
  have shape: "sl1 = sl \<or> (b \<and> sl1 = sl @ [(lep, t)])"
    using events_loop_append_strict [OF nr el] by auto
  have lp1: "lep1 = lep \<or> lep1 = t"
    by (rule events_loop_lep [OF el])
  have enter: "b1 \<and> \<not> b \<longrightarrow> lep1 = t"
    using events_loop_in_scene [OF el] by blast
  have keep: "b1 \<longrightarrow> lep1 = t \<or> (b \<and> lep1 = lep)"
    using lp1 enter by blast
  have a: "b1 \<longrightarrow> (\<forall>t' \<in> set ts. lep1 < t')"
    using keep Cons.prems(6) lt by auto
  have b: "\<forall>(s, e) \<in> set sl1. s < e"
    using shape Cons.prems(6,7) by auto
  from Cons.IH [OF srt sub rest nrs a b] keep show ?case by auto
qed

lemma example_same_frame_state:
  "events example_same_frame =
     [(5, [\<lparr> kind = IN, time = 5, ctx = 0 \<rparr>, \<lparr> kind = OUT, time = 5, ctx = 1 \<rparr>])]"
  "start_pos example_same_frame = Some 0" "last_pos example_same_frame = Some 25"
  "only_cuts example_same_frame = False"
  by (simp_all add: example_same_frame_def after_run_def init_def add_event_def)

lemma example_cut_at_start_state:
  "events example_cut_at_start = [(0, [\<lparr> kind = CUT, time = 0, ctx = 0 \<rparr>])]"
  "start_pos example_cut_at_start = Some 0" "last_pos example_cut_at_start = Some 60"
  "only_cuts example_cut_at_start = True"
  by (simp_all add: example_cut_at_start_def after_run_def init_def add_event_def)

lemma example_cut_past_end_state:
  "events example_cut_past_end = [(100, [\<lparr> kind = CUT, time = 100, ctx = 0 \<rparr>])]"
  "start_pos example_cut_past_end = Some 0" "last_pos example_cut_past_end = Some 60"
  "only_cuts example_cut_past_end = True"
  by (simp_all add: example_cut_past_end_def after_run_def init_def add_event_def)

lemma example_fade_from_start_state:
  "events example_fade_from_start =
     [(0, [\<lparr> kind = IN, time = 0, ctx = 0 \<rparr>]),
      (10, [\<lparr> kind = CUT, time = 10, ctx = 1 \<rparr>, \<lparr> kind = CUT, time = 10, ctx = 3 \<rparr>]),
      (20, [\<lparr> kind = OUT, time = 20, ctx = 2 \<rparr>])]"
  "start_pos example_fade_from_start = Some 0" "last_pos example_fade_from_start = Some 25"
  "only_cuts example_fade_from_start = False"
  by (simp_all add: example_fade_from_start_def after_run_def init_def add_event_def)

text \<open>
  C2 (amended). For every ledger state on which \<open>get_scene_list\<close> returns a list,
  consecutive scenes satisfy \<open>end[i] \<le> start[i+1]\<close>. Suppose further that no timecode
  holds an IN event followed, in arrival order, by an OUT or CUT event on the same frame,
  that every event timecode lies strictly after the start position if the cuts-only flag is
  set, and that \<open>start \<le> last\<close> if \<open>always_include_end\<close> is requested. Then every scene
  satisfies \<open>start < end\<close>, with one exception: a final scene added by
  \<open>always_include_end\<close> that begins at an event timecode beyond the last processed
  position. So every scene satisfies \<open>start < end\<close> when, in addition, no event timecode
  lies beyond the last processed position or \<open>always_include_end\<close> is not requested.
\<close>

theorem scene_list_ordered:
  assumes res: "get_scene_list st always_include_end = Inr sl"
  shows "(\<forall>i. Suc i < length sl \<longrightarrow> snd (sl ! i) \<le> fst (sl ! Suc i)) \<and>
         (dict_ok (events st) \<and> start_pos st = Some sp \<and>
          (always_include_end \<longrightarrow> last_pos st = Some lp \<and> sp \<le> lp) \<and>
          (\<forall>t \<in> set (map fst (events st)). (only_cuts st \<longrightarrow> sp < t) \<and>
              (\<forall>es. map_of (events st) t = Some es \<longrightarrow> \<not> reopens es))
          \<longrightarrow> (\<forall>(s, e) \<in> set sl. s < e \<or>
                 (always_include_end \<and> e = lp + 1 \<and> lp < s \<and> s \<in> set (map fst (events st)))) \<and>
              ((always_include_end \<longrightarrow> (\<forall>t \<in> set (map fst (events st)). t \<le> lp))
                 \<longrightarrow> (\<forall>(s, e) \<in> set sl. s < e)))"
proof (cases "events st = []")
  case True
  with res have "sl = []" by (simp add: get_scene_list_def)
  then show ?thesis by simp
next
  case False
  let ?ts = "sort (map fst (events st))"
  from res False obtain sp0 where sp0: "start_pos st = Some sp0"
    by (auto simp: get_scene_list_def split: option.splits)
  from res False sp0 obtain b' lep' sl' where
    tl: "timecodes_loop (events st) ?ts (only_cuts st, sp0, []) = Inr (b', lep', sl')"
    by (auto simp: get_scene_list_def split: sum.splits)
  have sl: "sl = sl' \<or> (\<exists>lp0. b' \<and> always_include_end \<and> last_pos st = Some lp0 \<and>
                               sl = sl' @ [(lep', lp0 + 1)])"
    using res False sp0 tl by (auto simp: get_scene_list_def split: if_splits option.splits)
  have sub: "set ?ts \<subseteq> set (map fst (events st))" by simp
  have ch: "successively (\<lambda>x y. snd x \<le> fst y) sl' \<and> (sl' \<noteq> [] \<longrightarrow> snd (last sl') \<le> lep')"
    by (rule timecodes_loop_chain [OF _ sub tl]) simp_all
  have "successively (\<lambda>x y. snd x \<le> fst y) sl"
    using sl ch by (auto simp: successively_append_iff)
  then have part1: "\<forall>i. Suc i < length sl \<longrightarrow> snd (sl ! i) \<le> fst (sl ! Suc i)"
    using successively_nth [of "\<lambda>x y. snd x \<le> fst y" sl] by blast
  have part2: "\<forall>(s, e) \<in> set sl. s < e \<or>
                 (always_include_end \<and> e = lp + 1 \<and> lp < s \<and> s \<in> set (map fst (events st)))"
    if ok: "dict_ok (events st)" and sp: "start_pos st = Some sp"
      and lp: "always_include_end \<longrightarrow> last_pos st = Some lp \<and> sp \<le> lp"
      and keys: "\<forall>t \<in> set (map fst (events st)). (only_cuts st \<longrightarrow> sp < t) \<and>
              (\<forall>es. map_of (events st) t = Some es \<longrightarrow> \<not> reopens es)"
  proof -
    from sp sp0 have [simp]: "sp0 = sp" by simp
    have d: "distinct ?ts" using ok by (simp add: dict_ok_def)
    have nr: "\<forall>t \<in> set ?ts. \<forall>es. map_of (events st) t = Some es \<longrightarrow> \<not> reopens es"
      using keys by simp
    have lt: "only_cuts st \<longrightarrow> (\<forall>t \<in> set ?ts. sp0 < t)" using keys by simp
    have str: "(\<forall>(s, e) \<in> set sl'. s < e) \<and>
               (b' \<longrightarrow> lep' \<in> set ?ts \<or> (only_cuts st \<and> lep' = sp0))"
      by (rule timecodes_loop_strict [OF _ d sub tl nr lt]) simp_all
    from sl show ?thesis
    proof
      assume "sl = sl'" with str show ?thesis by auto
    next
      assume "\<exists>lp0. b' \<and> always_include_end \<and> last_pos st = Some lp0 \<and> sl = sl' @ [(lep', lp0 + 1)]"
      then obtain lp0 where f: "b'" "always_include_end" "last_pos st = Some lp0"
        "sl = sl' @ [(lep', lp0 + 1)]" by blast
      with lp have [simp]: "lp0 = lp" and le: "sp \<le> lp" by auto
      from str f(1) have "lep' \<in> set (map fst (events st)) \<or> lep' = sp" by auto
      then have "lep' < lp + 1 \<or> (lp < lep' \<and> lep' \<in> set (map fst (events st)))"
        using le by auto
      with str f show ?thesis by auto
    qed
  qed
  have part3: "\<forall>(s, e) \<in> set sl. s < e"
    if "\<forall>(s, e) \<in> set sl. s < e \<or>
                 (always_include_end \<and> e = lp + 1 \<and> lp < s \<and> s \<in> set (map fst (events st)))"
      and "always_include_end \<longrightarrow> (\<forall>t \<in> set (map fst (events st)). t \<le> lp)"
    using that by fastforce
  from part1 part2 part3 show ?thesis by blast
qed

text \<open>
  The claim as stated fails: an IN and an OUT event on one frame give the empty scene
  \<open>(5,5)\<close>; a cut on the first frame gives \<open>(0,0)\<close>; a cut beyond the last processed
  position gives a last scene \<open>(100,61)\<close>.
\<close>

theorem scene_list_ordered_counterexample:
  "start_pos example_same_frame = Some 0 \<and> last_pos example_same_frame = Some 25 \<and>
   get_scene_list example_same_frame True = Inr [(5, 5)] \<and>
   \<not> list_all (\<lambda>(s, e). s < e) [(5 :: nat, 5 :: nat)] \<and>
   start_pos example_cut_at_start = Some 0 \<and> last_pos example_cut_at_start = Some 60 \<and>
   get_scene_list example_cut_at_start True = Inr [(0, 0), (0, 61)] \<and>
   \<not> list_all (\<lambda>(s, e). s < e) [(0 :: nat, 0 :: nat), (0, 61)] \<and>
   start_pos example_cut_past_end = Some 0 \<and> last_pos example_cut_past_end = Some 60 \<and>
   get_scene_list example_cut_past_end True = Inr [(0, 100), (100, 61)] \<and>
   \<not> list_all (\<lambda>(s, e). s < e) [(0 :: nat, 100 :: nat), (100, 61)]"
  by (simp add: get_scene_list_def example_same_frame_state example_cut_at_start_state
      example_cut_past_end_state getitem_def)

theorem scene_list_ordered_witness:
  "get_scene_list example_fade_from_start True = Inr [(0, 10), (10, 20)] \<and>
   snd ([(0 :: nat, 10 :: nat), (10, 20)] ! 0) \<le> fst ([(0 :: nat, 10 :: nat), (10, 20)] ! Suc 0) \<and>
   list_all (\<lambda>(s, e). s < e) [(0 :: nat, 10 :: nat), (10, 20)]"
proof -
  note ex = example_fade_from_start_state
  have res: "get_scene_list example_fade_from_start True = Inr [(0, 10), (10, 20)]"
    by (simp add: get_scene_list_def ex getitem_def)
  have hyp: "dict_ok (events example_fade_from_start) \<and>
      start_pos example_fade_from_start = Some 0 \<and>
      (True \<longrightarrow> last_pos example_fade_from_start = Some 25 \<and> (0 :: nat) \<le> 25) \<and>
      (\<forall>t \<in> set (map fst (events example_fade_from_start)).
         (only_cuts example_fade_from_start \<longrightarrow> 0 < t) \<and>
         (\<forall>es. map_of (events example_fade_from_start) t = Some es \<longrightarrow> \<not> reopens es))"
    by (simp add: ex dict_ok_def)
  have le: "True \<longrightarrow> (\<forall>t \<in> set (map fst (events example_fade_from_start)). t \<le> 25)"
    by (simp add: ex)
  note inst = scene_list_ordered [OF res, of 0 25]
  from inst [THEN conjunct1, THEN spec, of 0]
  have a: "snd ([(0 :: nat, 10 :: nat), (10, 20)] ! 0) \<le> fst ([(0 :: nat, 10 :: nat), (10, 20)] ! Suc 0)"
    by simp
  from inst [THEN conjunct2, THEN mp, OF hyp, THEN conjunct2, THEN mp, OF le]
  have b: "list_all (\<lambda>(s, e). s < e) [(0 :: nat, 10 :: nat), (10, 20)]"
    by (simp add: list_all_iff)
  from res a b show ?thesis by (intro conjI)
qed

section \<open>Scene assembly: one boundary per timecode\<close>












section \<open>Scene assembly: arrival order across timecodes\<close>

lemma timecodes_loop_cong:
  "map_of d = map_of d' \<Longrightarrow> timecodes_loop d ts a = timecodes_loop d' ts a"
proof (induction ts arbitrary: a)
  case Nil
  then show ?case by simp
next
  case (Cons t ts)
  from Cons.prems have "getitem d t = getitem d' t" by (simp add: getitem_def)
  with Cons show ?case by (simp split: sum.splits)
qed

lemma get_scene_list_cong:
  assumes m: "map_of (events st) = map_of (events st')"
    and ok: "dict_ok (events st)" "dict_ok (events st')"
    and eq: "start_pos st = start_pos st'" "last_pos st = last_pos st'" "only_cuts st = only_cuts st'"
  shows "get_scene_list st b = get_scene_list st' b"
proof -
  from m have "dom (map_of (events st)) = dom (map_of (events st'))" by simp
  then have keys: "set (map fst (events st)) = set (map fst (events st'))"
    by (simp add: dom_map_of_conv_image_fst)
  then have e: "events st = [] \<longleftrightarrow> events st' = []" by (metis list.map_disc_iff set_empty)
  have srt: "sort (map fst (events st)) = sort (map fst (events st'))"
    using ok keys by (simp add: dict_ok_def sort_distinct_set)
  show ?thesis
    unfolding get_scene_list_def srt eq e timecodes_loop_cong [OF m] ..
qed

text \<open>
  C9. Two arrival orders of the same events that agree, for every timecode, on the order of
  the events of that timecode (the events of a timecode, filtered out of either order, are
  the same list) give, through \<open>add_events\<close> from any manager, the same result of
  \<open>get_scene_list\<close>.
\<close>

theorem scene_list_arrival_order:
  assumes ok: "dict_ok (events st)"
    and same: "\<forall>t. filter (\<lambda>e. time e = t) xs = filter (\<lambda>e. time e = t) ys"
  shows "get_scene_list (add_events st xs) always_include_end
           = get_scene_list (add_events st ys) always_include_end"
proof -
  have mem: "e \<in> set xs \<longleftrightarrow> e \<in> set ys" for e
  proof -
    have "e \<in> set xs \<longleftrightarrow> e \<in> set (filter (\<lambda>e'. time e' = time e) xs)" by simp
    also have "\<dots> \<longleftrightarrow> e \<in> set (filter (\<lambda>e'. time e' = time e) ys)" using same by simp
    also have "\<dots> \<longleftrightarrow> e \<in> set ys" by simp
    finally show ?thesis .
  qed
  then have s: "set xs = set ys" by blast
  have "map_of (events (add_events st xs)) t = map_of (events (add_events st ys)) t" for t
    using same s by (simp add: add_events_map_of)
  then have m: "map_of (events (add_events st xs)) = map_of (events (add_events st ys))"
    by (rule ext)
  show ?thesis
    by (rule get_scene_list_cong [OF m])
      (simp_all add: add_events_dict_ok ok add_events_start_pos add_events_last_pos
        add_events_only_cuts s)
qed

theorem scene_list_arrival_order_witness:
  "get_scene_list (add_events (after_run [] 0 25) example_arrival_a) True
     = get_scene_list (add_events (after_run [] 0 25) example_arrival_b) True \<and>
   get_scene_list (add_events (after_run [] 0 25) example_arrival_a) True
     = Inr [(5, 10), (10, 20), (22, 26)] \<and>
   example_arrival_a \<noteq> example_arrival_b"
proof -
  have ok: "dict_ok (events (after_run [] 0 25 :: (nat, unit) SceneManager))"
    by (simp add: after_run_def init_def dict_ok_def)
  have same: "\<forall>t. filter (\<lambda>e. time e = t) example_arrival_a
                 = filter (\<lambda>e. time e = t) example_arrival_b"
    by (simp add: example_arrival_a_def example_arrival_b_def)
  have val: "get_scene_list (add_events (after_run [] 0 25) example_arrival_a) True
     = Inr [(5, 10), (10, 20), (22, 26)]"
    by (simp add: get_scene_list_def example_arrival_a_def after_run_def init_def add_event_def
        getitem_def)
  have ne: "example_arrival_a \<noteq> example_arrival_b"
    by (simp add: example_arrival_a_def example_arrival_b_def)
  from scene_list_arrival_order [OF ok same, of True] val ne show ?thesis by simp
qed

section \<open>Scene assembly: the positions a run records\<close>

text \<open>
  C10. On a non-empty ledger \<open>get_scene_list\<close> fails its assertion when no start
  position is recorded, in particular after \<open>add_events\<close> alone; and when the assembly
  ends in a scene, \<open>always_include_end\<close> is set and no last position is recorded, it fails
  on \<open>None + 1\<close> instead of returning a list.
\<close>

theorem get_scene_list_needs_positions:
  "(events st \<noteq> [] \<and> start_pos st = None \<longrightarrow> get_scene_list st b = Inl AssertionError) \<and>
   (evs \<noteq> [] \<and> start_pos st = None \<longrightarrow> get_scene_list (add_events st evs) b = Inl AssertionError) \<and>
   (events st \<noteq> [] \<and> start_pos st = Some sp \<and> last_pos st = None \<and>
    timecodes_loop (events st) (sort (map fst (events st))) (only_cuts st, sp, []) = Inr (True, lep, sl)
     \<longrightarrow> get_scene_list st True = Inl TypeError)"
proof -
  have "events (add_events st evs) \<noteq> []" if "evs \<noteq> []"
  proof
    assume "events (add_events st evs) = []"
    then have "set (map fst (events (add_events st evs))) = {}" by simp
    with that show False unfolding add_events_keys by simp
  qed
  then show ?thesis
    by (auto simp: get_scene_list_def add_events_start_pos)
qed

theorem get_scene_list_needs_positions_witness:
  "get_scene_list (add_events (init None :: (nat, unit) SceneManager)
       [\<lparr> kind = CUT, time = 10, ctx = 0 \<rparr>]) True = Inl AssertionError \<and>
   get_scene_list ((add_events (init None :: (nat, unit) SceneManager)
       [\<lparr> kind = CUT, time = 10, ctx = 0 \<rparr>]) \<lparr> start_pos := Some 0 \<rparr>) True = Inl TypeError"
proof -
  let ?st = "init None :: (nat, unit) SceneManager"
  let ?evs = "[\<lparr> kind = CUT, time = 10, ctx = 0 :: nat \<rparr>]"
  let ?st2 = "(add_events ?st ?evs) \<lparr> start_pos := Some 0 \<rparr>"
  have a: "?evs \<noteq> [] \<and> start_pos ?st = None" by (simp add: init_def)
  have b: "events ?st2 \<noteq> [] \<and> start_pos ?st2 = Some 0 \<and> last_pos ?st2 = None \<and>
      timecodes_loop (events ?st2) (sort (map fst (events ?st2))) (only_cuts ?st2, 0, [])
        = Inr (True, 10, [(0, 10)])"
    by (simp add: init_def add_event_def getitem_def)
  from a get_scene_list_needs_positions [of ?st True ?evs]
  have "get_scene_list (add_events ?st ?evs) True = Inl AssertionError" by blast
  moreover from b get_scene_list_needs_positions [of ?st2 True "[]" 0 10 "[(0, 10)]"]
  have "get_scene_list ?st2 True = Inl TypeError" by blast
  ultimately show ?thesis by simp
qed

section \<open>The cut list\<close>

lemma filter_loop_greedy:
  "filtered \<noteq> [] \<Longrightarrow> sorted (last filtered # cs) \<Longrightarrow>
   filter_loop sp cs filtered = Inr (filtered @ spec_greedy sp (last filtered) cs)"
proof (induction cs arbitrary: filtered)
  case Nil
  then show ?case by simp
next
  case (Cons c cs)
  then have le: "last filtered \<le> c" by simp
  from Cons.prems have s1: "sorted (c # cs)" by simp
  from Cons.prems have s2: "sorted (last filtered # cs)" by auto
  show ?case
  proof (cases "sp \<le> int (c - last filtered)")
    case True
    then have "filter_loop sp (c # cs) filtered = filter_loop sp cs (filtered @ [c])"
      using Cons.prems by simp
    also have "\<dots> = Inr ((filtered @ [c]) @ spec_greedy sp (last (filtered @ [c])) cs)"
      using s1 by (intro Cons.IH) auto
    finally show ?thesis using True le by (simp add: of_nat_diff)
  next
    case False
    then have "filter_loop sp (c # cs) filtered = filter_loop sp cs filtered"
      using Cons.prems by simp
    also have "\<dots> = Inr (filtered @ spec_greedy sp (last filtered) cs)"
      using s2 Cons.prems(1) by (intro Cons.IH) auto
    finally show ?thesis using False le by (simp add: of_nat_diff)
  qed
qed

lemma cut_times_filter:
  "set ts \<subseteq> set (map fst d) \<Longrightarrow> cut_times d ts = Inr (filter (has_cut d) ts)"
proof (induction ts)
  case Nil
  then show ?case by simp
next
  case (Cons t ts)
  then have "t \<in> set (map fst d)" by simp
  from getitem_key [OF this] obtain es where "map_of d t = Some es" "getitem d t = Inr es"
    by blast
  then show ?case using Cons by (simp add: has_cut_def)
qed

text \<open>
  C7. \<open>get_cut_list\<close> collects, in ascending order, the timecodes that hold at least one
  CUT event; with \<open>minimum_spacing > 1\<close> and more than one cut it keeps the first cut and
  each later cut iff it lies at least \<open>minimum_spacing\<close> frames after the cut kept last;
  with \<open>minimum_spacing \<le> 1\<close> it returns all of them.
\<close>

theorem get_cut_list_spec:
  assumes "dict_ok (events st)"
  shows "\<exists>cuts. sorted cuts \<and> distinct cuts \<and>
           set cuts = {t \<in> set (map fst (events st)). has_cut (events st) t} \<and>
           get_cut_list st minimum_spacing = Inr (spec_cut_filter minimum_spacing cuts) \<and>
           (minimum_spacing \<le> 1 \<longrightarrow> get_cut_list st minimum_spacing = Inr cuts)"
proof -
  let ?keys = "sort (map fst (events st))"
  let ?cuts = "filter (has_cut (events st)) ?keys"
  have ct: "cut_times (events st) ?keys = Inr ?cuts"
    by (intro cut_times_filter) simp
  have srt: "sorted ?cuts" by (intro sorted_wrt_filter) simp
  have dst: "distinct ?cuts" using assms by (simp add: dict_ok_def)
  have st: "set ?cuts = {t \<in> set (map fst (events st)). has_cut (events st) t}" by auto
  have "get_cut_list st minimum_spacing = Inr (spec_cut_filter minimum_spacing ?cuts)"
  proof (cases ?cuts)
    case Nil
    then show ?thesis using ct by (simp add: get_cut_list_def spec_cut_filter_def)
  next
    case (Cons c cs)
    show ?thesis
    proof (cases "minimum_spacing > 1 \<and> cs \<noteq> []")
      case True
      have "sorted (c # cs)" using srt Cons by simp
      then have "filter_loop minimum_spacing cs [c] = Inr ([c] @ spec_greedy minimum_spacing c cs)"
        using filter_loop_greedy [of "[c]" cs minimum_spacing] by simp
      then show ?thesis using True ct Cons
        by (simp add: get_cut_list_def spec_cut_filter_def)
    next
      case False
      then show ?thesis using ct Cons
        by (auto simp: get_cut_list_def spec_cut_filter_def)
    qed
  qed
  moreover have "minimum_spacing \<le> 1 \<longrightarrow> get_cut_list st minimum_spacing = Inr ?cuts"
    using ct by (simp add: get_cut_list_def)
  ultimately show ?thesis using srt dst st by blast
qed

theorem get_cut_list_spec_witness:
  "dict_ok (events example_cluster) \<and> get_cut_list example_cluster 5 = Inr [10, 40] \<and>
   get_cut_list example_cluster 1 = Inr [10, 12, 13, 40]"
proof -
  have ev: "events example_cluster =
     [(12, [\<lparr> kind = CUT, time = 12, ctx = 0 \<rparr>]), (10, [\<lparr> kind = CUT, time = 10, ctx = 1 \<rparr>]),
      (11, [\<lparr> kind = IN, time = 11, ctx = 2 \<rparr>]), (40, [\<lparr> kind = CUT, time = 40, ctx = 3 \<rparr>]),
      (13, [\<lparr> kind = CUT, time = 13, ctx = 4 \<rparr>])]"
    by (simp add: example_cluster_def after_run_def init_def add_event_def)
  have ok: "dict_ok (events example_cluster)" by (simp add: ev dict_ok_def)
  have keys: "{t \<in> set (map fst (events example_cluster)). has_cut (events example_cluster) t}
      = {10, 12, 13, 40}"
    by (auto simp: ev has_cut_def)
  have uniq: "cuts = [10, 12, 13, 40]"
    if "sorted cuts" "distinct cuts" "set cuts = {10, 12, 13, 40}" for cuts :: "nat list"
    by (rule sorted_distinct_set_unique [OF that(1,2)]) (simp_all add: that(3))
  from get_cut_list_spec [OF ok, of 5] keys uniq have
    "get_cut_list example_cluster 5 = Inr (spec_cut_filter 5 [10, 12, 13, 40])"
    by force
  moreover from get_cut_list_spec [OF ok, of 1] keys uniq have
    "get_cut_list example_cluster 1 = Inr [10, 12, 13, 40]"
    by force
  ultimately show ?thesis using ok by (simp add: spec_cut_filter_def)
qed

section \<open>Turning events into cuts\<close>

lemma to_cut_idem: "to_cut (to_cut e) = to_cut e"
  by (simp add: to_cut_def)

lemma transform_loop_result:
  assumes "set ts \<subseteq> set (map fst d)"
  shows "\<exists>d'. transform_loop d ts = (None, d') \<and> map fst d' = map fst d \<and>
           (\<forall>t. map_of d' t = (if t \<in> set ts then map_option (map to_cut) (map_of d t)
                                else map_of d t))"
  using assms
proof (induction ts arbitrary: d)
  case Nil
  then show ?case by simp
next
  case (Cons t0 ts)
  from Cons.prems have "t0 \<in> set (map fst d)" by simp
  from getitem_key [OF this] obtain es where
    es: "map_of d t0 = Some es" "getitem d t0 = Inr es" by blast
  let ?d1 = "AList.update t0 (map to_cut es) d"
  have keys1: "map fst ?d1 = map fst d"
    using \<open>t0 \<in> set (map fst d)\<close> by (simp add: AList.update_keys)
  with Cons.prems have "set ts \<subseteq> set (map fst ?d1)" by simp
  from Cons.IH [OF this] obtain d' where
    d': "transform_loop ?d1 ts = (None, d')" "map fst d' = map fst ?d1"
      "\<forall>t. map_of d' t = (if t \<in> set ts then map_option (map to_cut) (map_of ?d1 t)
                              else map_of ?d1 t)" by blast
  have "\<forall>t. map_of d' t = (if t \<in> set (t0 # ts) then map_option (map to_cut) (map_of d t)
                                else map_of d t)"
    using d'(3) es(1) by (auto simp: AList.update_conv' to_cut_idem)
  then show ?case using d'(1,2) es(2) keys1 by simp
qed

text \<open>
  C4. With \<open>fade_bias = None\<close>, \<open>transform_events_to_cuts\<close> returns normally and
  leaves the keys of the ledger as they are; under every key it leaves as many events as
  before, each a CUT with the timecode and the context of the event it replaces, and it
  changes nothing else of the manager. With any other \<open>fade_bias\<close> it raises
  \<open>NotImplementedError\<close> and leaves the manager as it is.
\<close>

theorem transform_events_to_cuts_spec:
  "(\<exists>st'. transform_events_to_cuts st None = (None, st') \<and>
       st' = st\<lparr> events := events st' \<rparr> \<and>
       map fst (events st') = map fst (events st) \<and>
       (\<forall>t es. map_of (events st) t = Some es \<longrightarrow>
          (\<exists>es'. map_of (events st') t = Some es' \<and> length es' = length es \<and>
             (\<forall>i < length es. kind (es' ! i) = CUT \<and> time (es' ! i) = time (es ! i) \<and>
                              ctx (es' ! i) = ctx (es ! i)))))
   \<and> (\<exists>msg. transform_events_to_cuts st (Some fade_bias) = (Some (NotImplementedError msg), st))"
proof -
  have "set (map fst (events st)) \<subseteq> set (map fst (events st))" by simp
  from transform_loop_result [OF this] obtain d' where
    d': "transform_loop (events st) (map fst (events st)) = (None, d')"
      "map fst d' = map fst (events st)"
      "\<forall>t. map_of d' t = (if t \<in> set (map fst (events st))
             then map_option (map to_cut) (map_of (events st) t) else map_of (events st) t)"
    by blast
  have look: "map_of d' t = Some (map to_cut es)" if "map_of (events st) t = Some es" for t es
  proof -
    from that have "t \<in> set (map fst (events st))"
      by (metis domI dom_map_of_conv_image_fst set_map)
    with d'(3) that show ?thesis by simp
  qed
  have "transform_events_to_cuts st None = (None, st\<lparr> events := d' \<rparr>)"
    using d'(1) by (simp add: transform_events_to_cuts_def)
  moreover have "\<forall>t es. map_of (events st) t = Some es \<longrightarrow>
          (\<exists>es'. map_of d' t = Some es' \<and> length es' = length es \<and>
             (\<forall>i < length es. kind (es' ! i) = CUT \<and> time (es' ! i) = time (es ! i) \<and>
                              ctx (es' ! i) = ctx (es ! i)))"
    using look by (auto simp: to_cut_def)
  ultimately show ?thesis
    using d'(2) by (simp add: transform_events_to_cuts_def)
qed

theorem transform_events_to_cuts_spec_witness:
  "transform_events_to_cuts example_fades None =
     (None, example_fades \<lparr> events := [(2, [\<lparr> kind = CUT, time = 2, ctx = 0 \<rparr>]),
                                        (8, [\<lparr> kind = CUT, time = 8, ctx = 1 \<rparr>])] \<rparr>) \<and>
   transform_events_to_cuts example_fades (Some 0.3) =
     (Some (NotImplementedError ''TODO(v1.0): Handle fade_bias.''), example_fades)"
  using transform_events_to_cuts_spec [of example_fades "0.3"]
  by (simp add: transform_events_to_cuts_def example_fades_def after_run_def init_def
      add_event_def getitem_def to_cut_def)

section \<open>The argument checks of \<open>detect_scenes\<close>\<close>

text \<open>
  C6. \<open>detect_scenes\<close> raises \<open>ValueError\<close>, with the manager and the video untouched
  and the frame loop never entered, when both \<open>duration\<close> and \<open>end_time\<close> are given,
  when \<open>frame_skip > 0\<close> with a metric cache attached, when \<open>duration\<close> is negative,
  and when \<open>end_time\<close> is negative; in every other case it is the frame loop that runs.
\<close>

theorem detect_scenes_argument_checks:
  "(((duration \<noteq> None \<and> end_time \<noteq> None) \<or> (frame_skip > 0 \<and> stats_manager st \<noteq> None)
      \<or> (\<exists>d. duration = Some d \<and> d < 0) \<or> (\<exists>e. end_time = Some e \<and> e < 0))
     \<longrightarrow> (\<exists>msg. detect_scenes frame_loop st video duration end_time frame_skip
                  = (Inl (ValueError msg), st, video)))
   \<and> (\<not> ((duration \<noteq> None \<and> end_time \<noteq> None) \<or> (frame_skip > 0 \<and> stats_manager st \<noteq> None)
      \<or> (\<exists>d. duration = Some d \<and> d < 0) \<or> (\<exists>e. end_time = Some e \<and> e < 0))
     \<longrightarrow> detect_scenes frame_loop st video duration end_time frame_skip
           = frame_loop st video duration end_time frame_skip)"
  by (auto simp: detect_scenes_def)

theorem detect_scenes_argument_checks_witness:
  "detect_scenes idle_frame_loop (init None) 0 (Some 5) (Some 10) 0 =
     (Inl (ValueError ''duration and end_time cannot be set at the same time!''), init None, 0) \<and>
   detect_scenes idle_frame_loop (init (Some ())) 0 None None 2 =
     (Inl (ValueError ''frame_skip must be 0 when using a StatsManager.''), init (Some ()), 0) \<and>
   detect_scenes idle_frame_loop (init None) 0 (Some (- 1)) None 0 =
     (Inl (ValueError ''duration must be greater than or equal to 0!''), init None, 0) \<and>
   detect_scenes idle_frame_loop (init None) 0 None (Some (- 1)) 0 =
     (Inl (ValueError ''end_time must be greater than or equal to 0!''), init None, 0) \<and>
   detect_scenes idle_frame_loop (init None) 0 (Some 5) None 2 = (Inr 0, init None, 0)"
  using detect_scenes_argument_checks [of "Some 5" "Some 10" 0 "init None" idle_frame_loop 0]
    detect_scenes_argument_checks [of "Some 5" None 2 "init None" idle_frame_loop 0]
  by (simp add: detect_scenes_def init_def idle_frame_loop_def)

section \<open>The per-frame decision to process\<close>

text \<open>
  C3. With a metric cache attached, \<open>_is_processing_required\<close> asks \<open>all\<close> detectors:
  of two detectors, one missing its metrics and one finding them, it answers \<open>False\<close>;
  with no detector at all it answers \<open>True\<close>.
\<close>

theorem is_processing_required_asks_all:
  "SceneManager_is_processing_required example_two_detectors frame_num = False \<and>
   SceneManager_is_processing_required (init (Some ()) :: (nat, unit) SceneManager) frame_num
     = True"
  by (simp add: SceneManager_is_processing_required_def example_two_detectors_def init_def)

section \<open>The downscale factor\<close>








end
